theory Spec2Isabelle
  imports Main "HOL-Library.Word"
begin

section \<open>The legacy bank system: data\<close>

text \<open>
  \<^verbatim>\<open>main.cpp\<close> holds one global, \<^verbatim>\<open>int global_counter = 0;\<close>, the functions
  \<^verbatim>\<open>process_client\<close>, \<^verbatim>\<open>main_loop\<close> and \<^verbatim>\<open>main\<close>, and the declarations of three
  functions that it calls and that have no body anywhere in the repository:
  \<^verbatim>\<open>log_transaction\<close>, \<^verbatim>\<open>calculate_interest\<close> and \<^verbatim>\<open>update_balance\<close>.

  The C++ \<^verbatim>\<open>int\<close> is a 32-bit two's complement integer: a \<open>32 word\<close>, compared with
  the signed order \<open><s\<close> and read with \<open>sint\<close>.
\<close>

type_synonym cint = "32 word"

text \<open>
  What an observer of a run can see, in the order in which it happens: every function call,
  the read of the counter in the condition of \<^verbatim>\<open>main_loop\<close>, the completed increment, and the
  line written to standard output.
\<close>

datatype event =
    Call_main_loop
  | Call_process_client
  | Call_log_transaction
  | Call_calculate_interest
  | Call_update_balance
  | Check_counter
  | Increment_counter
  | Write_stdout string

text \<open>
  The program state: the global counter, the part of the world on which the three undefined
  functions act, and the log of events. Each entry of the log carries the value that
  \<^verbatim>\<open>global_counter\<close> has when the event happens, so every entry is an observation of the
  counter. The log is never read by the program.
\<close>

record 'w state =
  global_counter :: cint
  world :: 'w
  trace :: "(event \<times> cint) list"

text \<open>
  Modelled from the spec: the bodies of \<^verbatim>\<open>log_transaction\<close>, \<^verbatim>\<open>calculate_interest\<close> and
  \<^verbatim>\<open>update_balance\<close> are missing from the repository (\<^verbatim>\<open>main.cpp\<close> only declares them, as
  \<^verbatim>\<open>void f()\<close>). The spec calls them collaborator operations, each "a no-argument, no-return
  operation" with "undefined internal behavior", and says of the shared counter that it is
  "only ever read and written by the Loop Controller". So the three bodies are parameters of the
  model: arbitrary functions on the world \<open>'w\<close>, which is everything they may touch and
  does not include the counter. They return normally.
\<close>

record 'w collaborators =
  log_transaction_body :: "'w \<Rightarrow> 'w"
  calculate_interest_body :: "'w \<Rightarrow> 'w"
  update_balance_body :: "'w \<Rightarrow> 'w"

definition emit :: "event \<Rightarrow> 'w state \<Rightarrow> 'w state" where
  "emit e s = s\<lparr>trace := trace s @ [(e, global_counter s)]\<rparr>"

section \<open>The functions of main.cpp\<close>

text \<open>A call of each declared function is logged and runs the body given as a parameter.\<close>

definition log_transaction :: "'w collaborators \<Rightarrow> 'w state \<Rightarrow> 'w state" where
  "log_transaction cs s =
     (emit Call_log_transaction s)\<lparr>world := log_transaction_body cs (world s)\<rparr>"

definition calculate_interest :: "'w collaborators \<Rightarrow> 'w state \<Rightarrow> 'w state" where
  "calculate_interest cs s =
     (emit Call_calculate_interest s)\<lparr>world := calculate_interest_body cs (world s)\<rparr>"

definition update_balance :: "'w collaborators \<Rightarrow> 'w state \<Rightarrow> 'w state" where
  "update_balance cs s =
     (emit Call_update_balance s)\<lparr>world := update_balance_body cs (world s)\<rparr>"

text \<open>
  \<^verbatim>\<open>void process_client() { log_transaction(); calculate_interest(); update_balance(); }\<close>
\<close>

definition process_client :: "'w collaborators \<Rightarrow> 'w state \<Rightarrow> 'w state" where
  "process_client cs s =
     update_balance cs (calculate_interest cs (log_transaction cs (emit Call_process_client s)))"

text \<open>
  \<^verbatim>\<open>void main_loop() {
    process_client();
    if (global_counter < 10) { global_counter++; main_loop(); }
  }\<close>
  The comparison is the signed one of \<^verbatim>\<open>int\<close>; the increment is the addition of the
  machine, which the guard keeps away from \<^verbatim>\<open>INT_MAX\<close>. The recursion is proved to
  terminate for every state: the distance from the counter to 10 shrinks at each call.
\<close>

function main_loop :: "'w collaborators \<Rightarrow> 'w state \<Rightarrow> 'w state" where
  "main_loop cs s =
     (let s1 = emit Check_counter (process_client cs (emit Call_main_loop s)) in
      if global_counter s1 <s 10
      then main_loop cs (emit Increment_counter (s1\<lparr>global_counter := global_counter s1 + 1\<rparr>))
      else s1)"
  by pat_completeness auto
termination
proof (relation "measure (\<lambda>(cs, s). nat (10 - sint (global_counter s)))")
  show "wf (measure (\<lambda>(cs :: 'w collaborators, s :: 'w state). nat (10 - sint (global_counter s))))"
    by simp
next
  fix cs :: "'w collaborators" and s s1 :: "'w state"
  assume s1: "s1 = emit Check_counter (process_client cs (emit Call_main_loop s))"
    and below: "global_counter s1 <s 10"
  have same: "global_counter s1 = global_counter s"
    by (simp add: s1 emit_def process_client_def update_balance_def calculate_interest_def
        log_transaction_def)
  have small: "sint (global_counter s) < 10"
    using below by (simp add: same word_sless_alt)
  moreover have "- (2 ^ 31) \<le> sint (global_counter s)"
    using sint_ge [of "global_counter s"] by simp
  ultimately have "sint (global_counter s + 1) = sint (global_counter s) + 1"
    by (simp add: sint_word_ariths signed_take_bit_int_eq_self)
  with small
  show "((cs, emit Increment_counter (s1\<lparr>global_counter := global_counter s1 + 1\<rparr>)), cs, s)
      \<in> measure (\<lambda>(cs, s). nat (10 - sint (global_counter s)))"
    by (simp add: same emit_def)
qed

text \<open>
  \<^verbatim>\<open>int main() {
    std::cout << "Starting Bank System..." << std::endl;
    main_loop();
    return 0;
  }\<close>
  The process starts with the statically initialised counter, \<^verbatim>\<open>int global_counter = 0;\<close>.
  \<^verbatim>\<open>main\<close> takes no \<^verbatim>\<open>argc\<close>/\<^verbatim>\<open>argv\<close> and calls nothing that reads the environment, so
  the model's \<open>main\<close> depends on the collaborators and the world only. \<^verbatim>\<open>std::endl\<close> ends the
  line. The result is the exit status with the final state.
\<close>

definition startup :: "'w \<Rightarrow> 'w state" where
  "startup w = \<lparr>global_counter = 0, world = w, trace = []\<rparr>"

definition status_line :: string where
  "status_line = ''Starting Bank System...'' @ [CHR 0x0A]"

definition main :: "'w collaborators \<Rightarrow> 'w \<Rightarrow> cint \<times> 'w state" where
  "main cs w = (let s = main_loop cs (emit (Write_stdout status_line) (startup w)) in (0, s))"

section \<open>The loop at another threshold\<close>

text \<open>
  \<^verbatim>\<open>main_loop\<close> with the literal 10 of its condition turned into a parameter \<open>T\<close>, to say
  what the loop would do if the threshold were another number. Nothing else differs, and
  \<open>main_loop_upto 10\<close> is proved equal to \<open>main_loop\<close> below.
\<close>

function main_loop_upto :: "cint \<Rightarrow> 'w collaborators \<Rightarrow> 'w state \<Rightarrow> 'w state" where
  "main_loop_upto T cs s =
     (let s1 = emit Check_counter (process_client cs (emit Call_main_loop s)) in
      if global_counter s1 <s T
      then main_loop_upto T cs
             (emit Increment_counter (s1\<lparr>global_counter := global_counter s1 + 1\<rparr>))
      else s1)"
  by pat_completeness auto
termination
proof (relation "measure (\<lambda>(T, cs, s). nat (sint T - sint (global_counter s)))")
  show "wf (measure (\<lambda>(T, cs :: 'w collaborators, s :: 'w state).
      nat (sint T - sint (global_counter s))))"
    by simp
next
  fix T :: cint and cs :: "'w collaborators" and s s1 :: "'w state"
  assume s1: "s1 = emit Check_counter (process_client cs (emit Call_main_loop s))"
    and below: "global_counter s1 <s T"
  have same: "global_counter s1 = global_counter s"
    by (simp add: s1 emit_def process_client_def update_balance_def calculate_interest_def
        log_transaction_def)
  have small: "sint (global_counter s) < sint T"
    using below by (simp add: same word_sless_alt)
  moreover have "sint T < 2 ^ 31"
    using sint_lt [of T] by simp
  moreover have "- (2 ^ 31) \<le> sint (global_counter s)"
    using sint_ge [of "global_counter s"] by simp
  ultimately have "sint (global_counter s + 1) = sint (global_counter s) + 1"
    by (simp add: sint_word_ariths signed_take_bit_int_eq_self)
  with small
  show "((T, cs, emit Increment_counter (s1\<lparr>global_counter := global_counter s1 + 1\<rparr>)),
      T, cs, s) \<in> measure (\<lambda>(T, cs, s). nat (sint T - sint (global_counter s)))"
    by (simp add: same emit_def)
qed

section \<open>The state machine of the specification\<close>

text \<open>
  The spec describes the Loop Controller as a machine with the states running and done,
  the transition from running to running "while counter < threshold (with counter increment)"
  and from running to done "once counter \<ge> threshold". This definition follows those words,
  not the code; done is terminal.
\<close>

datatype phase = Running | Done

fun controller_step :: "cint \<Rightarrow> phase \<times> cint \<Rightarrow> phase \<times> cint" where
  "controller_step T (Running, c) = (if c <s T then (Running, c + 1) else (Done, c))"
| "controller_step T (Done, c) = (Done, c)"

section \<open>Reading the log\<close>

text \<open>The events that running \<open>f\<close> from \<open>s\<close> adds to the log.\<close>

definition emitted :: "('w state \<Rightarrow> 'w state) \<Rightarrow> 'w state \<Rightarrow> (event \<times> cint) list" where
  "emitted f s = drop (length (trace s)) (trace (f s))"

text \<open>The entries of one kind, their number, and the counter values they carry.\<close>

definition occurrences :: "event \<Rightarrow> (event \<times> cint) list \<Rightarrow> (event \<times> cint) list" where
  "occurrences e evs = filter (\<lambda>x. fst x = e) evs"

definition calls :: "event \<Rightarrow> (event \<times> cint) list \<Rightarrow> nat" where
  "calls e evs = length (occurrences e evs)"

definition counter_values :: "(event \<times> cint) list \<Rightarrow> cint list" where
  "counter_values evs = map snd evs"

text \<open>The calls of the three collaborators, in the order of the log.\<close>

fun is_collaborator_call :: "event \<Rightarrow> bool" where
  "is_collaborator_call Call_log_transaction = True"
| "is_collaborator_call Call_calculate_interest = True"
| "is_collaborator_call Call_update_balance = True"
| "is_collaborator_call _ = False"

definition collaborator_calls :: "(event \<times> cint) list \<Rightarrow> event list" where
  "collaborator_calls evs = filter is_collaborator_call (map fst evs)"

text \<open>What one pass of the three bodies does to the world.\<close>

definition pipeline :: "'w collaborators \<Rightarrow> 'w \<Rightarrow> 'w" where
  "pipeline cs w = update_balance_body cs (calculate_interest_body cs (log_transaction_body cs w))"

text \<open>
  Between two consecutive entries of the log the counter either stays, or the second entry is
  a completed increment and the counter has grown by exactly one.
\<close>

definition counter_step :: "event \<times> cint \<Rightarrow> event \<times> cint \<Rightarrow> bool" where
  "counter_step x y = (snd y = (if fst y = Increment_counter then snd x + 1 else snd x))"

text \<open>
  The log of one invocation of \<open>main_loop\<close> up to its test, and of a run of \<open>n\<close>
  increments from the counter \<open>c\<close>, written out: the lemmas below show that the code
  produces exactly these.
\<close>

definition cycle_events :: "cint \<Rightarrow> (event \<times> cint) list" where
  "cycle_events c =
     [(Call_main_loop, c), (Call_process_client, c), (Call_log_transaction, c),
      (Call_calculate_interest, c), (Call_update_balance, c), (Check_counter, c)]"

fun run_events :: "nat \<Rightarrow> cint \<Rightarrow> (event \<times> cint) list" where
  "run_events 0 c = cycle_events c"
| "run_events (Suc n) c = cycle_events c @ (Increment_counter, c + 1) # run_events n (c + 1)"

text \<open>The entries that are writes to standard output.\<close>

fun is_stdout :: "event \<Rightarrow> bool" where
  "is_stdout (Write_stdout l) = True"
| "is_stdout _ = False"

definition stdout_writes :: "(event \<times> cint) list \<Rightarrow> (event \<times> cint) list" where
  "stdout_writes evs = filter (\<lambda>x. is_stdout (fst x)) evs"

text \<open>
  A concrete instance of the three bodies, for running the model: the world is the number of
  collaborator calls made so far, and each body counts one.
\<close>

definition counting :: "nat collaborators" where
  "counting = \<lparr>log_transaction_body = Suc, calculate_interest_body = Suc,
     update_balance_body = Suc\<rparr>"

section \<open>Basic facts\<close>

declare main_loop.simps [simp del] main_loop_upto.simps [simp del]

lemma global_counter_emit [simp]: "global_counter (emit e s) = global_counter s"
  by (simp add: emit_def)

lemma world_emit [simp]: "world (emit e s) = world s"
  by (simp add: emit_def)

lemma trace_emit [simp]: "trace (emit e s) = trace s @ [(e, global_counter s)]"
  by (simp add: emit_def)

lemma global_counter_process_client [simp]:
  "global_counter (process_client cs s) = global_counter s"
  by (simp add: process_client_def update_balance_def calculate_interest_def
      log_transaction_def)

lemma world_process_client [simp]:
  "world (process_client cs s) = pipeline cs (world s)"
  by (simp add: process_client_def update_balance_def calculate_interest_def
      log_transaction_def pipeline_def)

lemma trace_process_client [simp]:
  "trace (process_client cs s) =
     trace s @ [(Call_process_client, global_counter s), (Call_log_transaction, global_counter s),
       (Call_calculate_interest, global_counter s), (Call_update_balance, global_counter s)]"
  by (simp add: process_client_def update_balance_def calculate_interest_def
      log_transaction_def)

lemma sint_increment_below:
  fixes c t :: cint
  assumes "c <s t"
  shows "sint (c + 1) = sint c + 1"
proof -
  have "sint c < sint t" using assms by (simp add: word_sless_alt)
  moreover have "sint t < 2 ^ 31" using sint_lt [of t] by simp
  moreover have "- (2 ^ 31) \<le> sint c" using sint_ge [of c] by simp
  ultimately show ?thesis
    by (simp add: sint_word_ariths signed_take_bit_int_eq_self)
qed

lemma distance_Suc:
  fixes c t :: cint
  assumes "c <s t"
  shows "nat (sint t - sint c) = Suc (nat (sint t - sint (c + 1)))"
  using assms sint_increment_below [OF assms] by (simp add: word_sless_alt)

lemma distance_0:
  fixes c t :: cint
  assumes "\<not> c <s t"
  shows "nat (sint t - sint c) = 0"
  using assms by (simp add: word_sless_alt)

lemma main_loop_upto_10: "main_loop_upto 10 cs s = main_loop cs s"
proof (induction cs s rule: main_loop.induct)
  case (1 cs s)
  show ?case
  proof (cases "global_counter s <s 10")
    case True
    with "1" show ?thesis
      by (subst main_loop_upto.simps, subst main_loop.simps) (simp add: Let_def)
  next
    case False
    then show ?thesis
      by (subst main_loop_upto.simps, subst main_loop.simps) (simp add: Let_def)
  qed
qed

lemma trace_main_loop_upto:
  "trace (main_loop_upto T cs s) =
     trace s @ run_events (nat (sint T - sint (global_counter s))) (global_counter s)"
proof (induction T cs s rule: main_loop_upto.induct)
  case (1 T cs s)
  show ?case
  proof (cases "global_counter s <s T")
    case True
    with "1" show ?thesis
      by (subst main_loop_upto.simps) (simp add: Let_def distance_Suc cycle_events_def)
  next
    case False
    then show ?thesis
      by (subst main_loop_upto.simps) (simp add: Let_def distance_0 cycle_events_def)
  qed
qed

lemma global_counter_main_loop_upto:
  "global_counter (main_loop_upto T cs s) = (if global_counter s <s T then T else global_counter s)"
proof (induction T cs s rule: main_loop_upto.induct)
  case (1 T cs s)
  show ?case
  proof (cases "global_counter s <s T")
    case True
    have "global_counter s + 1 = T" if "\<not> global_counter s + 1 <s T"
    proof -
      have "sint (global_counter s + 1) = sint T"
        using that True sint_increment_below [OF True] by (simp add: word_sless_alt)
      then show ?thesis by (rule signed_word_eqI)
    qed
    with True "1" show ?thesis
      by (subst main_loop_upto.simps) (simp add: Let_def)
  next
    case False
    then show ?thesis
      by (subst main_loop_upto.simps) (simp add: Let_def)
  qed
qed

lemma world_main_loop_upto:
  "world (main_loop_upto T cs s) =
     (pipeline cs ^^ Suc (nat (sint T - sint (global_counter s)))) (world s)"
proof (induction T cs s rule: main_loop_upto.induct)
  case (1 T cs s)
  show ?case
  proof (cases "global_counter s <s T")
    case True
    with "1" show ?thesis
      by (subst main_loop_upto.simps) (simp add: Let_def distance_Suc funpow_swap1)
  next
    case False
    then show ?thesis
      by (subst main_loop_upto.simps) (simp add: Let_def distance_0)
  qed
qed

section \<open>The log of a run\<close>

lemma emitted_main_loop_upto:
  "emitted (main_loop_upto T cs) s =
     run_events (nat (sint T - sint (global_counter s))) (global_counter s)"
  by (simp add: emitted_def trace_main_loop_upto)

lemma emitted_main_loop:
  "emitted (main_loop cs) s =
     run_events (nat (10 - sint (global_counter s))) (global_counter s)"
  using emitted_main_loop_upto [of 10 cs s] by (simp add: main_loop_upto_10 [abs_def])

lemma emitted_process_client:
  "emitted (process_client cs) s =
     [(Call_process_client, global_counter s), (Call_log_transaction, global_counter s),
       (Call_calculate_interest, global_counter s), (Call_update_balance, global_counter s)]"
  by (simp add: emitted_def)

lemma calls_run_events:
  "calls Call_main_loop (run_events n c) = Suc n"
  "calls Call_process_client (run_events n c) = Suc n"
  "calls Call_log_transaction (run_events n c) = Suc n"
  "calls Call_calculate_interest (run_events n c) = Suc n"
  "calls Call_update_balance (run_events n c) = Suc n"
  "calls Check_counter (run_events n c) = Suc n"
  "calls Increment_counter (run_events n c) = n"
  "calls (Write_stdout l) (run_events n c) = 0"
  by (induction n arbitrary: c; simp add: calls_def occurrences_def cycle_events_def)+

lemma collaborator_calls_run_events:
  "collaborator_calls (run_events n c) =
     concat (replicate (Suc n) [Call_log_transaction, Call_calculate_interest, Call_update_balance])"
  by (induction n arbitrary: c) (simp_all add: collaborator_calls_def cycle_events_def)

lemma upt_shift: "map f [0..<Suc n] = f 0 # map (\<lambda>k. f (Suc k)) [0..<n]"
  by (simp only: upt_conv_Cons [OF zero_less_Suc] list.map map_Suc_upt [symmetric]) (simp add: comp_def)

lemma entries_run_events:
  "counter_values (occurrences Call_main_loop (run_events n c)) =
     map (\<lambda>k. c + of_nat k) [0..<Suc n]"
proof (induction n arbitrary: c)
  case 0
  show ?case by (simp add: counter_values_def occurrences_def cycle_events_def)
next
  case (Suc n)
  have "counter_values (occurrences Call_main_loop (run_events (Suc n) c)) =
      c # counter_values (occurrences Call_main_loop (run_events n (c + 1)))"
    by (simp add: counter_values_def occurrences_def cycle_events_def)
  also have "\<dots> = c # map (\<lambda>k. c + 1 + of_nat k) [0..<Suc n]"
    by (simp only: Suc.IH)
  also have "\<dots> = map (\<lambda>k. c + of_nat k) [0..<Suc (Suc n)]"
    by (subst upt_shift [of _ "Suc n"]) (simp add: add.assoc)
  finally show ?case .
qed

lemma checks_run_events:
  "counter_values (occurrences Check_counter (run_events n c)) =
     map (\<lambda>k. c + of_nat k) [0..<Suc n]"
proof (induction n arbitrary: c)
  case 0
  show ?case by (simp add: counter_values_def occurrences_def cycle_events_def)
next
  case (Suc n)
  have "counter_values (occurrences Check_counter (run_events (Suc n) c)) =
      c # counter_values (occurrences Check_counter (run_events n (c + 1)))"
    by (simp add: counter_values_def occurrences_def cycle_events_def)
  also have "\<dots> = c # map (\<lambda>k. c + 1 + of_nat k) [0..<Suc n]"
    by (simp only: Suc.IH)
  also have "\<dots> = map (\<lambda>k. c + of_nat k) [0..<Suc (Suc n)]"
    by (subst upt_shift [of _ "Suc n"]) (simp add: add.assoc)
  finally show ?case .
qed

lemma hd_run_events: "hd (run_events n c) = (Call_main_loop, c)"
  by (cases n) (simp_all add: cycle_events_def)

lemma run_events_not_Nil: "run_events n c \<noteq> []"
  by (cases n) (simp_all add: cycle_events_def)

lemma counter_step_pair:
  "counter_step (e1, c1) (e2, c2) = (c2 = (if e2 = Increment_counter then c1 + 1 else c1))"
  by (simp add: counter_step_def)

lemma counter_step_run_events: "successively counter_step (run_events n c)"
proof (induction n arbitrary: c)
  case 0
  show ?case by (simp add: cycle_events_def counter_step_pair)
next
  case (Suc n)
  have "counter_step (Increment_counter, c + 1) (hd (run_events n (c + 1)))"
    by (simp add: hd_run_events counter_step_pair)
  with Suc.IH [of "c + 1"]
  have "successively counter_step ((Increment_counter, c + 1) # run_events n (c + 1))"
    by (simp add: successively_Cons)
  then show ?case
    by (simp add: cycle_events_def counter_step_pair)
qed

lemma values_run_events:
  fixes c :: cint
  assumes "sint c + int n < 2 ^ 31"
  shows "sorted_wrt (\<le>s) (counter_values (run_events n c)) \<and>
    (\<forall>v \<in> set (counter_values (run_events n c)). sint c \<le> sint v \<and> sint v \<le> sint c + int n)"
  using assms
proof (induction n arbitrary: c)
  case 0
  show ?case by (simp add: counter_values_def cycle_events_def)
next
  case (Suc n)
  have lo: "- (2 ^ 31) \<le> sint c" using sint_ge [of c] by simp
  have next_val: "sint (c + 1) = sint c + 1"
    using Suc.prems lo by (simp add: sint_word_ariths signed_take_bit_int_eq_self)
  have "sint (c + 1) + int n < 2 ^ 31"
    using Suc.prems next_val by simp
  from Suc.IH [OF this]
  have sorted: "sorted_wrt (\<le>s) (counter_values (run_events n (c + 1)))"
    and range: "\<And>v. v \<in> set (counter_values (run_events n (c + 1))) \<Longrightarrow>
      sint c + 1 \<le> sint v \<and> sint v \<le> sint c + 1 + int n"
    by (simp_all add: next_val)
  have split: "counter_values (run_events (Suc n) c) =
      [c, c, c, c, c, c, c + 1] @ counter_values (run_events n (c + 1))"
    by (simp add: counter_values_def cycle_events_def)
  have "sorted_wrt (\<le>s) ([c, c, c, c, c, c, c + 1] @ counter_values (run_events n (c + 1)))"
    unfolding sorted_wrt_append
    using sorted range by (auto simp: word_sle_eq next_val dest!: range)
  moreover have "\<forall>v \<in> set ([c, c, c, c, c, c, c + 1] @ counter_values (run_events n (c + 1))).
      sint c \<le> sint v \<and> sint v \<le> sint c + int (Suc n)"
    using range by (auto simp: next_val dest!: range)
  ultimately show ?case by (simp only: split) 
qed

section \<open>The whole program and the state machine\<close>

lemma trace_main:
  "trace (snd (main cs w)) = (Write_stdout status_line, 0) # run_events 10 0"
  using trace_main_loop_upto [of 10 cs "emit (Write_stdout status_line) (startup w)"]
  by (simp add: main_def main_loop_upto_10 startup_def)

lemma global_counter_main: "global_counter (snd (main cs w)) = 10"
  using global_counter_main_loop_upto [of 10 cs "emit (Write_stdout status_line) (startup w)"]
  by (simp add: main_def main_loop_upto_10 startup_def word_sless_alt)

lemma stdout_writes_run_events: "stdout_writes (run_events n c) = []"
  by (induction n arbitrary: c) (simp_all add: stdout_writes_def cycle_events_def)

lemma last_run_events: "last (run_events n c) = (Check_counter, c + of_nat n)"
proof (induction n arbitrary: c)
  case 0
  show ?case by (simp add: cycle_events_def)
next
  case (Suc n)
  then show ?case by (simp add: run_events_not_Nil add.assoc)
qed

lemma counter_plus_distance:
  fixes c T :: cint
  shows "c + of_nat (nat (sint T - sint c)) = (if c <s T then T else c)"
proof (cases "c <s T")
  case True
  then have "0 \<le> sint T - sint c" by (simp add: word_sless_alt)
  then have "(of_nat (nat (sint T - sint c)) :: cint) = of_int (sint T - sint c)"
    by simp
  also have "\<dots> = T - c" by simp
  finally show ?thesis using True by simp
next
  case False
  then show ?thesis by (simp add: word_sless_alt)
qed

lemma sint_add_of_nat:
  fixes c :: cint
  assumes "sint c + int k < 2 ^ 31"
  shows "sint (c + of_nat k) = sint c + int k"
  using assms
proof (induction k)
  case 0
  show ?case by simp
next
  case (Suc k)
  then have IH: "sint (c + of_nat k) = sint c + int k" by simp
  have "- (2 ^ 31) \<le> sint c" using sint_ge [of c] by simp
  then have "sint (c + of_nat k + 1) = sint (c + of_nat k) + 1"
    using Suc.prems IH by (simp add: sint_word_ariths signed_take_bit_int_eq_self)
  moreover have "c + of_nat (Suc k) = c + of_nat k + 1" by simp
  ultimately show ?case by (simp only: IH)
qed

lemma controller_running:
  fixes c T :: cint
  assumes "k \<le> nat (sint T - sint c)"
  shows "(controller_step T ^^ k) (Running, c) = (Running, c + of_nat k)"
  using assms
proof (induction k)
  case 0
  show ?case by simp
next
  case (Suc k)
  then have IH: "(controller_step T ^^ k) (Running, c) = (Running, c + of_nat k)" by simp
  have "sint c + int k < sint T" using Suc.prems by linarith
  moreover have "sint T < 2 ^ 31" using sint_lt [of T] by simp
  ultimately have "sint (c + of_nat k) < sint T"
    by (simp add: sint_add_of_nat)
  then have "c + of_nat k <s T" by (simp add: word_sless_alt)
  then show ?case by (simp add: IH add.assoc)
qed

lemma controller_done:
  fixes c T :: cint
  shows "(controller_step T ^^ Suc (nat (sint T - sint c))) (Running, c) =
     (Done, if c <s T then T else c)"
proof -
  have "(controller_step T ^^ nat (sint T - sint c)) (Running, c) =
      (Running, if c <s T then T else c)"
    using controller_running [of "nat (sint T - sint c)" T c]
    by (simp only: counter_plus_distance)
  moreover have "\<not> (if c <s T then T else c) <s T"
    by simp
  ultimately show ?thesis by simp
qed

lemma run_events_10_0_last: "(Check_counter, 10) \<in> set (run_events 10 0)"
  by (simp add: eval_nat_numeral cycle_events_def)

lemma nth_entries:
  "k \<le> n \<Longrightarrow> map (\<lambda>k. (c::cint) + of_nat k) [0..<Suc n] ! k = c + of_nat k"
  using nth_map [of k "[0..<Suc n]" "\<lambda>k. c + of_nat k"] nth_upt [of 0 k "Suc n"]
  by simp

section \<open>The claims\<close>

text \<open>
  Claim C1. In a full run, that is \<open>main_loop\<close> started in a state whose counter is 0 (the
  threshold of the code being 10), \<open>process_client\<close> is called exactly 11 times: the run
  appends its events to the log it was given, and exactly 11 of them are calls of
  \<open>process_client\<close>.
\<close>

theorem cycle_runner_invoked_11_times:
  assumes "global_counter s = 0"
  shows "calls Call_process_client (emitted (main_loop cs) s) = 11 \<and>
    trace (main_loop cs s) = trace s @ emitted (main_loop cs) s"
proof -
  have "trace (main_loop cs s) = trace s @ emitted (main_loop cs) s"
    using trace_main_loop_upto [of 10 cs s]
    by (simp add: main_loop_upto_10 emitted_main_loop)
  moreover have "calls Call_process_client (emitted (main_loop cs) s) = 11"
    using assms by (simp add: emitted_main_loop calls_run_events)
  ultimately show ?thesis by simp
qed

theorem cycle_runner_invoked_11_times_witness:
  "global_counter (startup (0::nat)) = 0 \<and>
   calls Call_process_client (emitted (main_loop counting) (startup 0)) = 11 \<and>
   trace (main_loop counting (startup 0)) = emitted (main_loop counting) (startup 0)"
  using cycle_runner_invoked_11_times [of "startup 0" counting]
  by (simp add: startup_def)

text \<open>
  Claim C2. In a full run started with the counter at 0, the values of \<open>global_counter\<close>
  seen at the observation points, in the order of the run, never decrease in the signed order;
  each of them is at most 10 (and at least 0); and when \<open>main_loop\<close> has returned the counter
  is exactly 10.
\<close>

theorem counter_monotone_bounded_final:
  assumes "global_counter s = 0"
  shows "sorted_wrt (\<le>s) (counter_values (emitted (main_loop cs) s)) \<and>
    (\<forall>v \<in> set (counter_values (emitted (main_loop cs) s)). 0 \<le>s v \<and> v \<le>s 10) \<and>
    global_counter (main_loop cs s) = 10"
proof -
  have ev: "emitted (main_loop cs) s = run_events 10 0"
    using assms by (simp add: emitted_main_loop)
  have "sint (0::cint) + int 10 < 2 ^ 31" by simp
  from values_run_events [OF this]
  have "sorted_wrt (\<le>s) (counter_values (run_events 10 0))"
    and "\<forall>v \<in> set (counter_values (run_events 10 0)). 0 \<le> sint v \<and> sint v \<le> 10"
    by simp_all
  moreover have "global_counter (main_loop cs s) = 10"
    using assms global_counter_main_loop_upto [of 10 cs s]
    by (simp add: main_loop_upto_10 word_sless_alt)
  ultimately show ?thesis
    by (simp add: ev word_sle_eq)
qed

theorem counter_monotone_bounded_final_witness:
  "global_counter (startup (0::nat)) = 0 \<and>
   10 \<in> set (counter_values (emitted (main_loop counting) (startup 0))) \<and>
   (0::cint) \<le>s 10 \<and> (10::cint) \<le>s 10 \<and>
   sorted_wrt (\<le>s) (counter_values (emitted (main_loop counting) (startup 0))) \<and>
   global_counter (main_loop counting (startup 0)) = 10"
proof -
  have "global_counter (startup (0::nat)) = 0" by (simp add: startup_def)
  moreover have "10 \<in> set (counter_values (emitted (main_loop counting) (startup (0::nat))))"
    using run_events_10_0_last
    by (force simp add: emitted_main_loop startup_def counter_values_def)
  ultimately show ?thesis
    using counter_monotone_bounded_final [of "startup 0" counting] by blast
qed

text \<open>
  Claim C3. One invocation of \<open>main_loop\<close> from any state, whose counter is \<open>c\<close>: its
  first six log entries are its own call, the entries of exactly one run of
  \<open>process_client\<close>, and the test of the counter, which still reads \<open>c\<close>. If \<open>c\<close> is
  below 10 in the signed order, the counter becomes \<open>c + 1\<close> (one more as a signed number,
  without wrap-around), the next entry is that increment, and the rest of the invocation is
  \<open>main_loop\<close> run again from the incremented state. Otherwise the invocation returns the
  state reached at the test: nothing more is logged and the counter is still \<open>c\<close>.
\<close>

theorem main_loop_one_invocation:
  "(let c = global_counter s;
        after_cycle = process_client cs (emit Call_main_loop s);
        after_test = emit Check_counter after_cycle;
        after_increment = emit Increment_counter (after_test\<lparr>global_counter := c + 1\<rparr>)
    in take 6 (emitted (main_loop cs) s) =
         (Call_main_loop, c) # emitted (process_client cs) (emit Call_main_loop s) @
           [(Check_counter, c)] \<and>
       calls Call_process_client (take 6 (emitted (main_loop cs) s)) = 1 \<and>
       global_counter after_test = c \<and>
       (if c <s 10
        then global_counter after_increment = c + 1 \<and> sint (c + 1) = sint c + 1 \<and>
          main_loop cs s = main_loop cs after_increment \<and>
          drop 6 (emitted (main_loop cs) s) =
            (Increment_counter, c + 1) # emitted (main_loop cs) after_increment
        else main_loop cs s = after_test \<and> global_counter (main_loop cs s) = c \<and>
          drop 6 (emitted (main_loop cs) s) = []))"
proof (cases "global_counter s <s 10")
  case True
  have "emitted (main_loop cs) s =
      cycle_events (global_counter s) @ (Increment_counter, global_counter s + 1) #
        run_events (nat (10 - sint (global_counter s + 1))) (global_counter s + 1)"
    using distance_Suc [OF True] by (simp add: emitted_main_loop)
  moreover have "length (cycle_events (global_counter s)) = 6"
    by (simp add: cycle_events_def)
  ultimately have "take 6 (emitted (main_loop cs) s) = cycle_events (global_counter s)"
    and "drop 6 (emitted (main_loop cs) s) = (Increment_counter, global_counter s + 1) #
        run_events (nat (10 - sint (global_counter s + 1))) (global_counter s + 1)"
    by simp_all
  moreover have "main_loop cs s = main_loop cs (emit Increment_counter
      ((emit Check_counter (process_client cs (emit Call_main_loop s)))
        \<lparr>global_counter := global_counter s + 1\<rparr>))"
    using True by (subst main_loop.simps) (simp add: Let_def)
  ultimately show ?thesis
    using True sint_increment_below [OF True]
    by (simp add: Let_def emitted_main_loop emitted_process_client cycle_events_def
        calls_def occurrences_def)
next
  case False
  have "emitted (main_loop cs) s = cycle_events (global_counter s)"
    using distance_0 [OF False] by (simp add: emitted_main_loop)
  moreover have "main_loop cs s = emit Check_counter (process_client cs (emit Call_main_loop s))"
    using False by (subst main_loop.simps) (simp add: Let_def)
  ultimately show ?thesis
    using False
    by (simp add: Let_def emitted_process_client cycle_events_def calls_def occurrences_def)
qed

theorem main_loop_one_invocation_witness:
  "global_counter (startup (0::nat)) <s 10 \<and>
   main_loop counting (startup 0) =
     main_loop counting (emit Increment_counter
       ((emit Check_counter (process_client counting (emit Call_main_loop (startup 0))))
         \<lparr>global_counter := 1\<rparr>)) \<and>
   \<not> global_counter (startup (0::nat)\<lparr>global_counter := 10\<rparr>) <s 10 \<and>
   global_counter (main_loop counting (startup 0\<lparr>global_counter := 10\<rparr>)) = 10 \<and>
   calls Call_process_client
     (take 6 (emitted (main_loop counting) (startup 0\<lparr>global_counter := 10\<rparr>))) = 1"
  using main_loop_one_invocation [of "startup 0" counting]
    main_loop_one_invocation [of "startup 0\<lparr>global_counter := 10\<rparr>" counting]
  by (simp add: startup_def Let_def word_sless_alt calls_def occurrences_def
      emitted_process_client)

text \<open>
  Claim C4. \<open>main_loop\<close> is a total function (its recursion was proved well-founded where it
  is defined), and it does what the state machine of the spec does. From any counter \<open>c\<close>,
  with \<open>n\<close> the distance from \<open>c\<close> up to 10 (0 when \<open>c\<close> is 10 or more): the machine
  stays running for \<open>n\<close> steps, going through the counters \<open>c, c + 1, ..., c + n\<close>; one
  step later it is done, with the counter that \<open>main_loop\<close> returns; \<open>main_loop\<close> is
  invoked exactly \<open>n + 1\<close> times, one invocation for each step of the machine; and the counters
  that the invocations test are the counters of the machine's running states. From the counter 0
  the machine is done after 11 steps with the counter 10.
\<close>

theorem loop_controller_state_machine:
  "(controller_step 10 ^^ Suc (nat (10 - sint (global_counter s)))) (Running, global_counter s) =
      (Done, global_counter (main_loop cs s)) \<and>
   (\<forall>k \<le> nat (10 - sint (global_counter s)).
      (controller_step 10 ^^ k) (Running, global_counter s) =
        (Running, global_counter s + of_nat k)) \<and>
   calls Call_main_loop (emitted (main_loop cs) s) = Suc (nat (10 - sint (global_counter s))) \<and>
   counter_values (occurrences Check_counter (emitted (main_loop cs) s)) =
      map (\<lambda>k. snd ((controller_step 10 ^^ k) (Running, global_counter s)))
        [0..<Suc (nat (10 - sint (global_counter s)))] \<and>
   (controller_step 10 ^^ 11) (Running, 0) = (Done, 10)"
proof -
  let ?c = "global_counter s"
  let ?n = "nat (10 - sint ?c)"
  have halts: "(controller_step 10 ^^ Suc ?n) (Running, ?c) = (Done, global_counter (main_loop cs s))"
    using controller_done [of 10 ?c] global_counter_main_loop_upto [of 10 cs s]
    by (simp add: main_loop_upto_10)
  have running: "\<forall>k \<le> ?n. (controller_step 10 ^^ k) (Running, ?c) = (Running, ?c + of_nat k)"
    using controller_running [of _ 10 ?c] by simp
  have depth: "calls Call_main_loop (emitted (main_loop cs) s) = Suc ?n"
    by (simp add: emitted_main_loop calls_run_events)
  have "map (\<lambda>k. snd ((controller_step 10 ^^ k) (Running, ?c))) [0..<Suc ?n] =
      map (\<lambda>k. ?c + of_nat k) [0..<Suc ?n]"
    using running by (intro map_cong refl) auto
  then have checks: "counter_values (occurrences Check_counter (emitted (main_loop cs) s)) =
      map (\<lambda>k. snd ((controller_step 10 ^^ k) (Running, ?c))) [0..<Suc ?n]"
    by (simp only: emitted_main_loop checks_run_events)
  have zero: "(controller_step 10 ^^ 11) (Running, 0) = (Done, 10)"
    using controller_done [of 10 0] by (simp add: word_sless_alt)
  from halts running depth checks zero show ?thesis by blast
qed

theorem loop_controller_state_machine_witness:
  "(3::nat) \<le> nat (10 - sint (global_counter (startup (0::nat)))) \<and>
   (controller_step 10 ^^ 3) (Running, global_counter (startup (0::nat))) = (Running, 3) \<and>
   (controller_step 10 ^^ 11) (Running, global_counter (startup (0::nat))) =
      (Done, global_counter (main_loop counting (startup 0))) \<and>
   calls Call_main_loop (emitted (main_loop counting) (startup 0)) = 11"
  using loop_controller_state_machine [of "startup 0" counting]
  by (simp add: startup_def)

text \<open>
  Claim C5. From any state \<open>s\<close>, \<open>process_client\<close> logs its own call and then one call of
  each of \<open>log_transaction\<close>, \<open>calculate_interest\<close> and \<open>update_balance\<close>, in this order,
  and leaves the world as the three bodies leave it when run in this order. In a full run
  (from a state \<open>s0\<close> with the counter 0) the collaborator calls are this triple repeated
  11 times, so each collaborator is called 11 times and no cycle overlaps the next, and the
  world has gone through the three bodies 11 times.
\<close>

theorem pipeline_order_and_cardinality:
  assumes "global_counter s0 = 0"
  shows "map fst (emitted (process_client cs) s) =
      [Call_process_client, Call_log_transaction, Call_calculate_interest, Call_update_balance] \<and>
    world (process_client cs s) =
      update_balance_body cs (calculate_interest_body cs (log_transaction_body cs (world s))) \<and>
    collaborator_calls (emitted (main_loop cs) s0) =
      concat (replicate 11 [Call_log_transaction, Call_calculate_interest, Call_update_balance]) \<and>
    calls Call_log_transaction (emitted (main_loop cs) s0) = 11 \<and>
    calls Call_calculate_interest (emitted (main_loop cs) s0) = 11 \<and>
    calls Call_update_balance (emitted (main_loop cs) s0) = 11 \<and>
    world (main_loop cs s0) = (pipeline cs ^^ 11) (world s0)"
proof -
  have ev: "emitted (main_loop cs) s0 = run_events 10 0"
    using assms by (simp add: emitted_main_loop)
  have "world (main_loop cs s0) = (pipeline cs ^^ 11) (world s0)"
    using assms world_main_loop_upto [of 10 cs s0] by (simp add: main_loop_upto_10)
  moreover have "collaborator_calls (run_events 10 0) =
      concat (replicate 11 [Call_log_transaction, Call_calculate_interest, Call_update_balance])"
    using collaborator_calls_run_events [of 10 0] by simp
  ultimately show ?thesis
    by (simp add: ev calls_run_events emitted_process_client pipeline_def)
qed

theorem pipeline_order_and_cardinality_witness:
  "global_counter (startup (0::nat)) = 0 \<and>
   map fst (emitted (process_client counting) (startup 0)) =
      [Call_process_client, Call_log_transaction, Call_calculate_interest, Call_update_balance] \<and>
   world (process_client counting (startup 0)) = 3 \<and>
   collaborator_calls (emitted (main_loop counting) (startup 0)) =
      concat (replicate 11 [Call_log_transaction, Call_calculate_interest, Call_update_balance]) \<and>
   calls Call_log_transaction (emitted (main_loop counting) (startup 0)) = 11 \<and>
   calls Call_calculate_interest (emitted (main_loop counting) (startup 0)) = 11 \<and>
   calls Call_update_balance (emitted (main_loop counting) (startup 0)) = 11 \<and>
   world (main_loop counting (startup 0)) = 33"
  using pipeline_order_and_cardinality [of "startup 0" counting "startup 0"]
  by (simp add: startup_def counting_def pipeline_def eval_nat_numeral)

text \<open>
  Claim C6. With the threshold 0 instead of 10 and the counter starting at 0,
  \<open>process_client\<close> still runs exactly once: the run consists of the call of the loop, one
  cycle with its three collaborator calls, and only then the test of the counter, which ends
  the run with the counter still 0. (The loop with a threshold as a parameter is the loop of
  the code when the threshold is 10.)
\<close>

theorem threshold_zero_runs_one_cycle:
  assumes "global_counter s = 0"
  shows "calls Call_process_client (emitted (main_loop_upto 0 cs) s) = 1 \<and>
    map fst (emitted (main_loop_upto 0 cs) s) =
      [Call_main_loop, Call_process_client, Call_log_transaction, Call_calculate_interest,
       Call_update_balance, Check_counter] \<and>
    global_counter (main_loop_upto 0 cs s) = 0 \<and>
    main_loop_upto 10 cs s = main_loop cs s"
  using assms
  by (simp add: emitted_main_loop_upto calls_def occurrences_def cycle_events_def
      global_counter_main_loop_upto main_loop_upto_10)

theorem threshold_zero_runs_one_cycle_witness:
  "global_counter (startup (0::nat)) = 0 \<and>
   calls Call_process_client (emitted (main_loop_upto 0 counting) (startup 0)) = 1 \<and>
   map fst (emitted (main_loop_upto 0 counting) (startup 0)) =
      [Call_main_loop, Call_process_client, Call_log_transaction, Call_calculate_interest,
       Call_update_balance, Check_counter] \<and>
   global_counter (main_loop_upto 0 counting (startup 0)) = 0"
  using threshold_zero_runs_one_cycle [of "startup 0" counting]
  by (simp add: startup_def)

text \<open>
  Claim C7. \<open>process_client\<close> returns with the counter it was called with, and every entry it
  logs carries that value. In a run of \<open>main_loop\<close> from any state \<open>s\<close> the log starts with
  the counter of \<open>s\<close>; between consecutive entries the counter changes only at an increment
  of \<open>main_loop\<close>, and then by exactly one; the counter returned is the one of the last
  entry; and there is one increment less than there are cycles: one after each cycle but the
  last. In a full run (from \<open>s0\<close> with the counter 0) there are 10 increments.
\<close>

theorem counter_changed_only_by_loop_increment:
  assumes "global_counter s0 = 0"
  shows "global_counter (process_client cs s) = global_counter s \<and>
    counter_values (emitted (process_client cs) s) = replicate 4 (global_counter s) \<and>
    hd (emitted (main_loop cs) s) = (Call_main_loop, global_counter s) \<and>
    successively counter_step (emitted (main_loop cs) s) \<and>
    global_counter (main_loop cs s) = snd (last (emitted (main_loop cs) s)) \<and>
    Suc (calls Increment_counter (emitted (main_loop cs) s)) =
      calls Call_process_client (emitted (main_loop cs) s) \<and>
    calls Increment_counter (emitted (main_loop cs) s0) = 10"
proof -
  have "global_counter (main_loop cs s) = snd (last (emitted (main_loop cs) s))"
    using global_counter_main_loop_upto [of 10 cs s] counter_plus_distance [of "global_counter s" 10]
    by (simp add: main_loop_upto_10 emitted_main_loop last_run_events)
  moreover have "calls Increment_counter (emitted (main_loop cs) s0) = 10"
    using assms by (simp add: emitted_main_loop calls_run_events)
  moreover have "counter_values (emitted (process_client cs) s) = replicate 4 (global_counter s)"
    by (simp add: emitted_process_client counter_values_def eval_nat_numeral)
  ultimately show ?thesis
    by (simp add: emitted_main_loop calls_run_events hd_run_events counter_step_run_events)
qed

theorem counter_changed_only_by_loop_increment_witness:
  "global_counter (startup (0::nat)) = 0 \<and>
   global_counter (process_client counting (startup 0)) = global_counter (startup 0) \<and>
   hd (emitted (main_loop counting) (startup 0)) = (Call_main_loop, 0) \<and>
   successively counter_step (emitted (main_loop counting) (startup 0)) \<and>
   calls Increment_counter (emitted (main_loop counting) (startup 0)) = 10"
  using counter_changed_only_by_loop_increment [of "startup 0" counting "startup 0"]
  by (simp add: startup_def)

text \<open>
  Claim C8. For all collaborators and any world, \<open>main\<close> returns the exit status 0. Its log
  has exactly one write to standard output, the fixed line \<^verbatim>\<open>Starting Bank System...\<close> with
  its newline; that write is the first entry of the log and the first call of \<open>main_loop\<close>
  is the second; the loop then runs to its end (11 invocations). \<open>main\<close> has no other input:
  it takes no arguments and has no error result.
\<close>

theorem main_status_line_and_exit:
  "fst (main cs w) = 0 \<and>
   stdout_writes (trace (snd (main cs w))) = [(Write_stdout status_line, 0)] \<and>
   take 2 (trace (snd (main cs w))) = [(Write_stdout status_line, 0), (Call_main_loop, 0)] \<and>
   status_line = ''Starting Bank System...'' @ [CHR 0x0A] \<and>
   calls Call_main_loop (trace (snd (main cs w))) = 11"
proof -
  have "take 2 ((Write_stdout status_line, 0) # run_events 10 0) =
      [(Write_stdout status_line, 0), (Call_main_loop, 0)]"
    by (simp add: eval_nat_numeral cycle_events_def)
  moreover have "stdout_writes ((Write_stdout status_line, 0) # run_events 10 0) =
      [(Write_stdout status_line, 0)]"
    using stdout_writes_run_events [of 10 0] by (simp add: stdout_writes_def)
  moreover have "calls Call_main_loop ((Write_stdout status_line, 0) # run_events 10 0) = 11"
    using calls_run_events(1) [of 10 0] by (simp add: calls_def occurrences_def)
  moreover have "fst (main cs w) = 0" by (simp add: main_def)
  ultimately show ?thesis
    by (simp only: trace_main status_line_def)
qed

text \<open>
  Claim C9. Every run of \<open>main\<close> has 11 cycles and ends with the counter 10. Two runs, even
  with different collaborators and different worlds (of different types), have the same log,
  the same final counter and the same exit status. In particular a second run that starts in
  the world the first run left behind again has 11 cycles and ends with the counter 10: the
  counter starts from 0 in each run.
\<close>

theorem runs_are_deterministic:
  fixes cs :: "'w collaborators" and cs' :: "'v collaborators"
  shows "calls Call_process_client (trace (snd (main cs w))) = 11 \<and>
    global_counter (snd (main cs w)) = 10 \<and>
    trace (snd (main cs' w')) = trace (snd (main cs w)) \<and>
    global_counter (snd (main cs' w')) = global_counter (snd (main cs w)) \<and>
    fst (main cs' w') = fst (main cs w) \<and>
    calls Call_process_client (trace (snd (main cs (world (snd (main cs w)))))) = 11 \<and>
    global_counter (snd (main cs (world (snd (main cs w))))) = 10"
proof -
  have "calls Call_process_client ((Write_stdout status_line, 0) # run_events 10 0) = 11"
    using calls_run_events(2) [of 10 0] by (simp add: calls_def occurrences_def)
  moreover have "fst (main cs' w') = fst (main cs w)" by (simp add: main_def)
  ultimately show ?thesis
    by (simp add: trace_main global_counter_main)
qed

text \<open>
  Claim C10. In a full run started with the counter at 0 there are eleven invocations of
  \<open>main_loop\<close>, and for every \<open>k\<close> from 1 to 11 the counter at the start of the
  \<open>k\<close>-th invocation, and at the test after the \<open>k\<close>-th cycle, is \<open>k - 1\<close>: the
  values seen are 0, 1, ..., 10, each one more than the one its caller saw.
\<close>

theorem counter_at_kth_invocation:
  assumes "global_counter s = 0"
  shows "counter_values (occurrences Call_main_loop (emitted (main_loop cs) s)) =
      [0, 1, 2, 3, 4, 5, 6, 7, 8, 9, 10] \<and>
    counter_values (occurrences Check_counter (emitted (main_loop cs) s)) =
      [0, 1, 2, 3, 4, 5, 6, 7, 8, 9, 10] \<and>
    (\<forall>k \<in> {1..11}.
      counter_values (occurrences Call_main_loop (emitted (main_loop cs) s)) ! (k - 1) =
        of_nat (k - 1) \<and>
      counter_values (occurrences Check_counter (emitted (main_loop cs) s)) ! (k - 1) =
        of_nat (k - 1))"
proof -
  have ev: "emitted (main_loop cs) s = run_events 10 0"
    using assms by (simp add: emitted_main_loop)
  have lists: "map (\<lambda>k. (0::cint) + of_nat k) [0..<Suc 10] = [0, 1, 2, 3, 4, 5, 6, 7, 8, 9, 10]"
    by (simp add: upt_rec)
  have "\<forall>k \<in> {1..11}. map (\<lambda>k. (0::cint) + of_nat k) [0..<Suc 10] ! (k - 1) = of_nat (k - 1)"
    using nth_entries [of _ 10 0] by auto
  then show ?thesis
    by (simp only: ev entries_run_events checks_run_events) (simp only: lists, simp)
qed

theorem counter_at_kth_invocation_witness:
  "global_counter (startup (0::nat)) = 0 \<and> (3::nat) \<in> {1..11} \<and>
   counter_values (occurrences Call_main_loop (emitted (main_loop counting) (startup 0))) ! (3 - 1) = 2 \<and>
   counter_values (occurrences Check_counter (emitted (main_loop counting) (startup 0))) ! (3 - 1) = 2 \<and>
   counter_values (occurrences Call_main_loop (emitted (main_loop counting) (startup 0))) =
      [0, 1, 2, 3, 4, 5, 6, 7, 8, 9, 10]"
  using counter_at_kth_invocation [of "startup 0" counting]
  by (simp add: startup_def)

end
